theory Spec2Isabelle
  imports Complex_Main "HOL-Library.Multiset"
begin

section \<open>Data model of \<open>PlaywrightBrowserManager\<close>\<close>

text \<open>
  The dictionaries built by the event handlers of \<^verbatim>\<open>src/mcp_playwright/main.py\<close> are
  records. Every dictionary that is later sorted with
  \<^verbatim>\<open>key=lambda x: x.get('timestamp', 0)\<close> carries the key \<^verbatim>\<open>'timestamp'\<close>, so the records
  share the base record \<open>stamped\<close> and the selector \<open>timestamp\<close> is that sort key (the
  default \<^verbatim>\<open>0\<close> of \<^verbatim>\<open>get\<close> is never taken: every entry is created with the key).

  A timestamp is the value of \<^verbatim>\<open>asyncio.get_event_loop().time()\<close>, a finite float that
  the code only stores and compares; it is a \<open>real\<close> here. Texts are \<open>string\<close>s. The
  payloads that the code passes through untouched (\<^verbatim>\<open>message.location\<close>, the header
  dictionaries) are the type parameters \<open>'l\<close> and \<open>'h\<close>.
\<close>

record stamped =
  timestamp :: real

text \<open>The \<^verbatim>\<open>log_entry\<close> dictionary of \<^verbatim>\<open>_handle_console_message\<close>.\<close>

record 'l log_entry = stamped +
  type :: string
  text_of :: string
  location :: 'l

text \<open>
  The \<^verbatim>\<open>current_group\<close> dictionary of \<^verbatim>\<open>get_console_logs\<close>: the four keys of a log
  entry and the keys \<^verbatim>\<open>'count'\<close> and \<^verbatim>\<open>'timestamps'\<close>.
\<close>

record 'l group = "'l log_entry" +
  count :: int
  timestamps :: "real list"

text \<open>The dictionary stored under \<^verbatim>\<open>request["response"]\<close> by \<^verbatim>\<open>_handle_response\<close>.\<close>

record 'h response_entry = stamped +
  status :: int
  statusText :: string
  response_headers :: 'h

text \<open>
  The \<^verbatim>\<open>request_entry\<close> dictionary of \<^verbatim>\<open>_handle_request\<close>. The key \<^verbatim>\<open>"response"\<close> is
  absent until a response is attached: \<open>response\<close> is an option, and
  \<^verbatim>\<open>"response" not in request\<close> is \<open>response r = None\<close>. The keys \<^verbatim>\<open>"method"\<close> and
  \<^verbatim>\<open>"id"\<close> are the fields \<open>method_of\<close> and \<open>request_id\<close>.
\<close>

record 'h request_entry = stamped +
  url :: string
  method_of :: string
  headers :: 'h
  resourceType :: string
  request_id :: int
  response :: "'h response_entry option"

text \<open>
  The objects that the browser passes to the handlers, with the attributes that the
  handlers read.
\<close>

datatype 'l console_message =
  ConsoleMessage (message_type: string) (message_text: string) (message_location: 'l)

datatype 'h request =
  Request (request_url: string) (request_method: string) (request_headers: 'h)
    (request_resource_type: string) (id_of_request: int)

datatype 'h response_obj =
  Response (response_url: string) (response_status: int) (response_status_text: string)
    (response_headers_of: 'h)

type_synonym handle = nat

text \<open>The attributes of \<^verbatim>\<open>PlaywrightBrowserManager\<close> set by \<^verbatim>\<open>__init__\<close>.\<close>

record ('l, 'h) manager =
  playwright :: "handle option"
  browser :: "handle option"
  page :: "handle option"
  console_logs :: "'l log_entry list"
  network_requests :: "'h request_entry list"
  is_initialized :: bool
  headless :: bool

definition init :: "bool \<Rightarrow> ('l, 'h) manager" where
  "init h = \<lparr>playwright = None, browser = None, page = None, console_logs = [],
     network_requests = [], is_initialized = False, headless = h\<rparr>"

section \<open>Event handlers\<close>

text \<open>
  Each handler takes \<open>now\<close>, the value that \<^verbatim>\<open>asyncio.get_event_loop().time()\<close> returns
  when it runs, and returns the manager after its assignment.
\<close>

definition handle_console_message ::
  "real \<Rightarrow> 'l console_message \<Rightarrow> ('l, 'h) manager \<Rightarrow> ('l, 'h) manager" where
  "handle_console_message now message self =
     self\<lparr>console_logs := console_logs self @
       [\<lparr>timestamp = now, type = message_type message, text_of = message_text message,
         location = message_location message\<rparr>]\<rparr>"

definition handle_request ::
  "real \<Rightarrow> 'h request \<Rightarrow> ('l, 'h) manager \<Rightarrow> ('l, 'h) manager" where
  "handle_request now req self =
     self\<lparr>network_requests := network_requests self @
       [\<lparr>timestamp = now, url = request_url req, method_of = request_method req,
         headers = request_headers req, resourceType = request_resource_type req,
         request_id = id_of_request req, response = None\<rparr>]\<rparr>"

text \<open>
  The loop of \<^verbatim>\<open>_handle_response\<close> over \<^verbatim>\<open>self.network_requests\<close>: the first entry with
  an equal url and no \<^verbatim>\<open>"response"\<close> key gets the response dictionary, and \<^verbatim>\<open>break\<close> leaves
  the rest as it is.
\<close>

fun attach_response ::
  "real \<Rightarrow> 'h response_obj \<Rightarrow> 'h request_entry list \<Rightarrow> 'h request_entry list" where
  "attach_response now resp [] = []"
| "attach_response now resp (r # rs) =
     (if url r = response_url resp \<and> response r = None
      then r\<lparr>response := Some \<lparr>timestamp = now, status = response_status resp,
             statusText = response_status_text resp,
             response_headers = response_headers_of resp\<rparr>\<rparr> # rs
      else r # attach_response now resp rs)"

definition handle_response ::
  "real \<Rightarrow> 'h response_obj \<Rightarrow> ('l, 'h) manager \<Rightarrow> ('l, 'h) manager" where
  "handle_response now resp self =
     self\<lparr>network_requests := attach_response now resp (network_requests self)\<rparr>"

section \<open>Python primitives used by the queries\<close>

text \<open>
  \<^verbatim>\<open>sorted(xs, key=k)\<close> and \<^verbatim>\<open>xs.sort(key=k)\<close> are stable: \<open>sort_key k xs\<close>. With
  \<^verbatim>\<open>reverse=True\<close> the order is descending and entries with equal keys keep their
  original order (the list is reversed, sorted and reversed again).
\<close>

definition sorted_reverse :: "('a \<Rightarrow> 'k::linorder) \<Rightarrow> 'a list \<Rightarrow> 'a list" where
  "sorted_reverse k xs = rev (sort_key k (rev xs))"

text \<open>
  The slice \<^verbatim>\<open>xs[:n]\<close>: the first \<open>n\<close> elements, and for a negative \<open>n\<close> all but the last
  \<open>-n\<close> elements.
\<close>

definition slice_to :: "int \<Rightarrow> 'a list \<Rightarrow> 'a list" where
  "slice_to n xs =
     (if n < 0 then take (length xs - nat (- n)) xs else take (nat n) xs)"

text \<open>\<^verbatim>\<open>str\<close> of an integer, as the f-string formats \<^verbatim>\<open>current_group['count']\<close>.\<close>

definition digit_char :: "nat \<Rightarrow> char" where
  "digit_char d = ''0123456789'' ! d"

function str_nat :: "nat \<Rightarrow> string" where
  "str_nat n = (if n < 10 then [digit_char n] else str_nat (n div 10) @ [digit_char (n mod 10)])"
  by pat_completeness auto
termination
  by (relation "measure (\<lambda>n. n)") auto

declare str_nat.simps [simp del]

definition str_int :: "int \<Rightarrow> string" where
  "str_int i = (if i < 0 then CHR ''-'' # str_nat (nat (- i)) else str_nat (nat i))"

section \<open>Queries\<close>

text \<open>The dictionary that starts a new group.\<close>

definition new_group :: "'l log_entry \<Rightarrow> 'l group" where
  "new_group entry = \<lparr>timestamp = timestamp entry, type = type entry, text_of = text_of entry,
     location = location entry, count = 1, timestamps = [timestamp entry]\<rparr>"

text \<open>
  The \<^verbatim>\<open>else\<close> branch of the loop: the count is incremented, the timestamp appended,
  and when the new count exceeds 1 the text of the group is overwritten.
\<close>

definition repeat_group :: "'l log_entry \<Rightarrow> 'l group \<Rightarrow> 'l group" where
  "repeat_group entry g =
     (let g1 = g\<lparr>count := count g + 1\<rparr>;
          g2 = g1\<lparr>timestamps := timestamps g1 @ [timestamp entry]\<rparr>
      in if count g2 > 1
         then g2\<lparr>text_of := text_of entry @ '' (repeated '' @ str_int (count g2) @ '' times)''\<rparr>
         else g2)"

text \<open>
  The loop \<^verbatim>\<open>for log in sorted_logs\<close> (\<open>entry\<close> is the loop variable \<^verbatim>\<open>log\<close>).
  \<^verbatim>\<open>current_group\<close> is \<^verbatim>\<open>None\<close> or the very dictionary that was appended last to
  \<^verbatim>\<open>deduplicated_logs\<close>, so the Python list is \<open>earlier\<close>, the groups that are no longer
  current, followed by the current group.
\<close>

fun dedup_loop :: "'l log_entry list \<Rightarrow> 'l group list \<Rightarrow> 'l group option \<Rightarrow> 'l group list" where
  "dedup_loop [] earlier None = earlier"
| "dedup_loop [] earlier (Some g) = earlier @ [g]"
| "dedup_loop (entry # logs) earlier None = dedup_loop logs earlier (Some (new_group entry))"
| "dedup_loop (entry # logs) earlier (Some g) =
     (if type entry \<noteq> type g \<or> text_of entry \<noteq> text_of g
      then dedup_loop logs (earlier @ [g]) (Some (new_group entry))
      else dedup_loop logs earlier (Some (repeat_group entry g)))"

definition deduplicate :: "'l log_entry list \<Rightarrow> 'l group list" where
  "deduplicate logs = dedup_loop (sort_key timestamp logs) [] None"

text \<open>
  The code of the queries raises nowhere, so the only errors of the model are the
  exceptions that come out of a call into the browser library (section Lifecycle).
  A query returns its result together with the manager, which it never assigns to:
  \<^verbatim>\<open>sorted\<close> copies, and the in-place \<^verbatim>\<open>sort\<close> calls work on lists built inside the query.
\<close>

datatype call =
  Start | Launch handle "(string \<times> bool) list" | NewPage handle | PageOn handle string
  | Goto handle string string | PageClose handle | BrowserClose handle | Stop handle

datatype error = Raised call | AttributeError

definition get_console_logs ::
  "int \<Rightarrow> ('l, 'h) manager \<Rightarrow> (error + 'l group list) \<times> ('l, 'h) manager" where
  "get_console_logs last_n self =
     (if console_logs self = [] then (Inr [], self)
      else
        let deduplicated_logs = deduplicate (console_logs self);
            deduplicated_logs = sorted_reverse timestamp deduplicated_logs;
            deduplicated_logs = slice_to last_n deduplicated_logs;
            deduplicated_logs = sort_key timestamp deduplicated_logs
        in (Inr deduplicated_logs, self))"

definition get_network_requests ::
  "int \<Rightarrow> ('l, 'h) manager \<Rightarrow> (error + 'h request_entry list) \<times> ('l, 'h) manager" where
  "get_network_requests last_n self =
     (if network_requests self = [] then (Inr [], self)
      else
        let sorted_requests = sorted_reverse timestamp (network_requests self);
            limited_requests = slice_to last_n sorted_requests;
            limited_requests = sort_key timestamp limited_requests
        in (Inr limited_requests, self))"

section \<open>Lifecycle\<close>

text \<open>
  The browser library is outside the program. A call into it either raises, and the
  exception leaves the method that made the call, or returns a handle (a call made
  for its effect returns a handle that is ignored). The environment \<open>env\<close> decides
  this for each call. While a method awaits a call on a page with listeners, the
  event loop runs the handlers for the events that the page emits: the list \<open>evs\<close>.
\<close>

datatype outcome = Raises | Returns handle

type_synonym env = "call \<Rightarrow> outcome"

datatype ('l, 'h) event =
  Console real "'l console_message"
  | RequestStarted real "'h request"
  | ResponseReceived real "'h response_obj"

fun dispatch :: "('l, 'h) event \<Rightarrow> ('l, 'h) manager \<Rightarrow> ('l, 'h) manager" where
  "dispatch (Console now message) self = handle_console_message now message self"
| "dispatch (RequestStarted now req) self = handle_request now req self"
| "dispatch (ResponseReceived now resp) self = handle_response now resp self"

definition deliver :: "('l, 'h) event list \<Rightarrow> ('l, 'h) manager \<Rightarrow> ('l, 'h) manager" where
  "deliver evs self = fold dispatch evs self"

text \<open>
  A method is a function from the manager to its result or the exception that left
  it, the manager as the method left it, and the calls it made into the browser
  library, in order.
\<close>

type_synonym ('a, 'l, 'h) action =
  "('l, 'h) manager \<Rightarrow> (error + 'a) \<times> ('l, 'h) manager \<times> call list"

definition returning :: "'a \<Rightarrow> ('a, 'l, 'h) action" where
  "returning x self = (Inr x, self, [])"

definition raise :: "error \<Rightarrow> ('a, 'l, 'h) action" where
  "raise e self = (Inl e, self, [])"

definition and_then ::
  "('a, 'l, 'h) action \<Rightarrow> ('a \<Rightarrow> ('b, 'l, 'h) action) \<Rightarrow> ('b, 'l, 'h) action" where
  "and_then p q self =
     (case p self of
        (Inl e, self1, cs) \<Rightarrow> (Inl e, self1, cs)
      | (Inr x, self1, cs) \<Rightarrow> (case q x self1 of (r, self2, cs') \<Rightarrow> (r, self2, cs @ cs')))"

definition assign :: "(('l, 'h) manager \<Rightarrow> ('l, 'h) manager) \<Rightarrow> (unit, 'l, 'h) action" where
  "assign f self = (Inr (), f self, [])"

definition await :: "env \<Rightarrow> call \<Rightarrow> ('l, 'h) event list \<Rightarrow> (handle, 'l, 'h) action" where
  "await env c evs self =
     (case env c of
        Raises \<Rightarrow> (Inl (Raised c), deliver evs self, [c])
      | Returns h \<Rightarrow> (Inr h, deliver evs self, [c]))"

text \<open>A synchronous call into the library that registers a listener.\<close>

definition call_sync :: "call \<Rightarrow> (unit, 'l, 'h) action" where
  "call_sync c self = (Inr (), self, [c])"

text \<open>
  \<^verbatim>\<open>initialize\<close>. No page of this manager is open while it runs (a page is only created
  after it), so no events are delivered.
\<close>

definition initialize :: "env \<Rightarrow> (unit, 'l, 'h) action" where
  "initialize env self =
     (if is_initialized self then returning () self
      else
        and_then (await env Start []) (\<lambda>pw.
        and_then (assign (\<lambda>self. self\<lparr>playwright := Some pw\<rparr>)) (\<lambda>_.
        (\<lambda>self.
          let launch_options = (if headless self then [(''headless'', True)] else []) in
          and_then (await env (Launch pw launch_options) []) (\<lambda>b.
          assign (\<lambda>self. self\<lparr>browser := Some b, is_initialized := True\<rparr>)) self))) self)"

text \<open>
  \<^verbatim>\<open>close\<close>. \<open>evs\<close> are the events that the open page emits until it is closed. A
  handle that is \<^verbatim>\<open>None\<close> is skipped.
\<close>

definition close :: "env \<Rightarrow> ('l, 'h) event list \<Rightarrow> (unit, 'l, 'h) action" where
  "close env evs =
     and_then (\<lambda>self. case page self of
         Some p \<Rightarrow> and_then (await env (PageClose p) evs) (\<lambda>_.
                     assign (\<lambda>self. self\<lparr>page := None\<rparr>)) self
       | None \<Rightarrow> returning () self) (\<lambda>_.
     and_then (\<lambda>self. case browser self of
         Some b \<Rightarrow> and_then (await env (BrowserClose b) []) (\<lambda>_.
                     assign (\<lambda>self. self\<lparr>browser := None\<rparr>)) self
       | None \<Rightarrow> returning () self) (\<lambda>_.
     and_then (\<lambda>self. case playwright self of
         Some pw \<Rightarrow> and_then (await env (Stop pw) []) (\<lambda>_.
                      assign (\<lambda>self. self\<lparr>playwright := None\<rparr>)) self
       | None \<Rightarrow> returning () self) (\<lambda>_.
     assign (\<lambda>self. self\<lparr>is_initialized := False, console_logs := [],
       network_requests := []\<rparr>))))"

text \<open>
  \<^verbatim>\<open>open_url\<close>. \<open>evs_close\<close> are the events that the previous page emits until it is
  closed, \<open>evs_nav\<close> the events that the new page emits while \<^verbatim>\<open>goto\<close> is awaited. The
  new page has no listeners while \<^verbatim>\<open>new_page\<close> is awaited. \<^verbatim>\<open>self.browser.new_page()\<close>
  on a browser that is \<^verbatim>\<open>None\<close> is an \<^verbatim>\<open>AttributeError\<close>.
\<close>

definition open_url ::
  "env \<Rightarrow> string \<Rightarrow> ('l, 'h) event list \<Rightarrow> ('l, 'h) event list \<Rightarrow> (string, 'l, 'h) action" where
  "open_url env url_arg evs_close evs_nav =
     and_then (\<lambda>self. if \<not> is_initialized self then initialize env self
                     else returning () self) (\<lambda>_.
     and_then (\<lambda>self. case page self of
         Some p \<Rightarrow> and_then (await env (PageClose p) evs_close) (\<lambda>_. returning ()) self
       | None \<Rightarrow> returning () self) (\<lambda>_.
     and_then (assign (\<lambda>self. self\<lparr>console_logs := [], network_requests := []\<rparr>)) (\<lambda>_.
     and_then (\<lambda>self. case browser self of
         Some b \<Rightarrow> await env (NewPage b) [] self
       | None \<Rightarrow> raise AttributeError self) (\<lambda>p.
     and_then (assign (\<lambda>self. self\<lparr>page := Some p\<rparr>)) (\<lambda>_.
     and_then (call_sync (PageOn p ''console'')) (\<lambda>_.
     and_then (call_sync (PageOn p ''request'')) (\<lambda>_.
     and_then (call_sync (PageOn p ''response'')) (\<lambda>_.
     and_then (await env (Goto p url_arg ''networkidle'') evs_nav) (\<lambda>_.
     returning (''Opened '' @ url_arg @
       '' successfully. The browser window will remain open for you to interact with.''))))))))))"

section \<open>Examples\<close>

text \<open>Concrete managers, entries and events, at which the theorems below are instantiated.\<close>

type_synonym example_manager = "(string, (string \<times> string) list) manager"

definition example_request :: "real \<Rightarrow> string \<Rightarrow> (string \<times> string) list request_entry" where
  "example_request t u = \<lparr>timestamp = t, url = u, method_of = ''GET'', headers = [],
     resourceType = ''fetch'', request_id = 7, response = None\<rparr>"

definition example_response :: "string \<Rightarrow> (string \<times> string) list response_obj" where
  "example_response u = Response u 200 ''OK'' []"

definition example_answered :: "(string \<times> string) list request_entry" where
  "example_answered = (example_request 1 ''/a'')\<lparr>response :=
     Some \<lparr>timestamp = 2, status = 404, statusText = ''Not Found'', response_headers = []\<rparr>\<rparr>"

definition example_network :: example_manager where
  "example_network = (init True)\<lparr>network_requests :=
     [example_answered, example_request 3 ''/b'', example_request 4 ''/a'', example_request 5 ''/a'']\<rparr>"

definition info_entry :: "real \<Rightarrow> string \<Rightarrow> 'l \<Rightarrow> 'l log_entry" where
  "info_entry t s l = \<lparr>timestamp = t, type = ''info'', text_of = s, location = l\<rparr>"

definition example_console :: example_manager where
  "example_console = (init True)\<lparr>console_logs :=
     [info_entry 1 ''a'' ''app.js:1'', info_entry 2 ''a'' ''app.js:1'',
      info_entry 3 ''b'' ''app.js:2'', info_entry 4 ''a'' ''app.js:1'']\<rparr>"

definition example_burst :: example_manager where
  "example_burst = (init True)\<lparr>console_logs :=
     [info_entry 1 ''a'' ''app.js:1'', info_entry 2 ''a'' ''app.js:1'',
      info_entry 3 ''a'' ''app.js:1'']\<rparr>"

definition example_console_ties :: example_manager where
  "example_console_ties = (init True)\<lparr>console_logs :=
     [info_entry 1 ''a'' ''app.js:1'', info_entry 2 ''a'' ''app.js:1'',
      info_entry 3 ''b'' ''app.js:2'', info_entry 3 ''a'' ''app.js:1'']\<rparr>"

definition example_network_ties :: example_manager where
  "example_network_ties = (init True)\<lparr>network_requests :=
     [example_request 1 ''/x'', example_request 1 ''/y'', example_request 1 ''/z'']\<rparr>"

definition example_env :: env where
  "example_env c = (case c of Start \<Rightarrow> Returns 1 | Launch pw opts \<Rightarrow> Returns 2
     | NewPage b \<Rightarrow> Returns 3 | _ \<Rightarrow> Returns 0)"

definition example_open :: example_manager where
  "example_open = \<lparr>playwright = Some 1, browser = Some 2, page = Some 3,
     console_logs = [info_entry 1 ''old'' ''old.js:1''],
     network_requests = [example_request 1 ''/old''],
     is_initialized = True, headless = True\<rparr>"

definition example_events :: "(string, (string \<times> string) list) event list" where
  "example_events =
     [Console 6 (ConsoleMessage ''log'' ''new'' ''new.js:1''),
      RequestStarted 7 (Request ''/new'' ''GET'' [] ''document'' 21)]"

section \<open>Properties of the event handlers\<close>

lemma attach_response_length: "length (attach_response now resp rs) = length rs"
  by (induction rs) auto

lemma attach_response_no_match:
  "\<forall>r \<in> set rs. \<not> (url r = response_url resp \<and> response r = None) \<Longrightarrow>
   attach_response now resp rs = rs"
  by (induction rs) auto

lemma attach_response_first_match:
  "i < length rs \<Longrightarrow> url (rs ! i) = response_url resp \<Longrightarrow> response (rs ! i) = None \<Longrightarrow>
   \<forall>j<i. \<not> (url (rs ! j) = response_url resp \<and> response (rs ! j) = None) \<Longrightarrow>
   attach_response now resp rs =
     rs[i := (rs ! i)\<lparr>response := Some \<lparr>timestamp = now, status = response_status resp,
       statusText = response_status_text resp,
       response_headers = response_headers_of resp\<rparr>\<rparr>]"
proof (induction rs arbitrary: i)
  case Nil
  then show ?case by simp
next
  case (Cons r rs)
  show ?case
  proof (cases i)
    case 0
    with Cons.prems show ?thesis by simp
  next
    case (Suc k)
    with Cons.prems have nm: "\<not> (url r = response_url resp \<and> response r = None)"
      by (metis nth_Cons_0 zero_less_Suc)
    have "\<forall>j<k. \<not> (url (rs ! j) = response_url resp \<and> response (rs ! j) = None)"
      using Cons.prems(4) Suc by (metis Suc_less_eq nth_Cons_Suc)
    from nm have step: "attach_response now resp (r # rs) = r # attach_response now resp rs"
      by auto
    from Cons.prems Suc have "k < length rs" "url (rs ! k) = response_url resp"
      "response (rs ! k) = None" by simp_all
    then have "attach_response now resp rs =
      rs[k := (rs ! k)\<lparr>response := Some \<lparr>timestamp = now, status = response_status resp,
        statusText = response_status_text resp,
        response_headers = response_headers_of resp\<rparr>\<rparr>]"
      using \<open>\<forall>j<k. \<not> (url (rs ! j) = response_url resp \<and> response (rs ! j) = None)\<close>
      by (rule Cons.IH)
    with step Suc show ?thesis by simp
  qed
qed

lemma attach_response_keeps:
  "i < length rs \<Longrightarrow> response (rs ! i) = Some x \<Longrightarrow>
   response (attach_response now resp rs ! i) = Some x"
proof (induction rs arbitrary: i)
  case Nil
  then show ?case by simp
next
  case (Cons r rs)
  then show ?case by (cases i) auto
qed

lemma dispatch_length_mono:
  "length (network_requests self) \<le> length (network_requests (dispatch ev self))"
  by (cases ev)
    (simp_all add: handle_console_message_def handle_request_def handle_response_def
      attach_response_length)

lemma dispatch_keeps:
  "i < length (network_requests self) \<Longrightarrow> response (network_requests self ! i) = Some x \<Longrightarrow>
   response (network_requests (dispatch ev self) ! i) = Some x"
  by (cases ev)
    (simp_all add: handle_console_message_def handle_request_def handle_response_def
      attach_response_keeps nth_append)

lemma deliver_keeps:
  "i < length (network_requests self) \<Longrightarrow> response (network_requests self ! i) = Some x \<Longrightarrow>
   i < length (network_requests (deliver evs self)) \<and>
   response (network_requests (deliver evs self) ! i) = Some x"
  unfolding deliver_def
proof (induction evs arbitrary: self)
  case Nil
  then show ?case by simp
next
  case (Cons ev evs)
  have "i < length (network_requests (dispatch ev self))"
    using Cons.prems(1) dispatch_length_mono[of self ev] by linarith
  moreover have "response (network_requests (dispatch ev self) ! i) = Some x"
    using Cons.prems by (rule dispatch_keeps)
  ultimately show ?case using Cons.IH by simp
qed

text \<open>
  C3. \<^verbatim>\<open>_handle_response\<close> attaches the response to the earliest exchange of the network
  log that has the url of the response and no response yet (first conjunct). A response
  that an exchange holds is never replaced, whatever events follow, so an exchange gets at
  most one response (second conjunct). After two requests for the same url, observed at
  times 0 and 1, and one response for that url at time 2, the first exchange holds the
  response and the second holds none (third conjunct).
\<close>

theorem response_attaches_to_oldest_unmatched:
  fixes self :: "('l, 'h) manager" and h :: bool
  shows
  "(i < length (network_requests self) \<and>
    url (network_requests self ! i) = response_url resp \<and>
    response (network_requests self ! i) = None \<and>
    (\<forall>j<i. \<not> (url (network_requests self ! j) = response_url resp \<and>
                response (network_requests self ! j) = None))
    \<longrightarrow> network_requests (handle_response now resp self) =
          (network_requests self)[i := (network_requests self ! i)\<lparr>response :=
             Some \<lparr>timestamp = now, status = response_status resp,
               statusText = response_status_text resp,
               response_headers = response_headers_of resp\<rparr>\<rparr>]) \<and>
   (k < length (network_requests self) \<and> response (network_requests self ! k) = Some x
    \<longrightarrow> k < length (network_requests (deliver evs self)) \<and>
        response (network_requests (deliver evs self) ! k) = Some x) \<and>
   (request_url r1 = response_url resp \<and> request_url r2 = response_url resp
    \<longrightarrow> network_requests
          (deliver [RequestStarted 0 r1, RequestStarted 1 r2, ResponseReceived 2 resp]
             (init h :: ('l, 'h) manager)) =
        [\<lparr>timestamp = 0, url = request_url r1, method_of = request_method r1,
           headers = request_headers r1, resourceType = request_resource_type r1,
           request_id = id_of_request r1,
           response = Some \<lparr>timestamp = 2, status = response_status resp,
             statusText = response_status_text resp,
             response_headers = response_headers_of resp\<rparr>\<rparr>,
         \<lparr>timestamp = 1, url = request_url r2, method_of = request_method r2,
           headers = request_headers r2, resourceType = request_resource_type r2,
           request_id = id_of_request r2, response = None\<rparr>])"
proof (intro conjI impI)
  assume "i < length (network_requests self) \<and>
    url (network_requests self ! i) = response_url resp \<and>
    response (network_requests self ! i) = None \<and>
    (\<forall>j<i. \<not> (url (network_requests self ! j) = response_url resp \<and>
                response (network_requests self ! j) = None))"
  then show "network_requests (handle_response now resp self) =
          (network_requests self)[i := (network_requests self ! i)\<lparr>response :=
             Some \<lparr>timestamp = now, status = response_status resp,
               statusText = response_status_text resp,
               response_headers = response_headers_of resp\<rparr>\<rparr>]"
    by (simp add: handle_response_def attach_response_first_match)
next
  assume a: "k < length (network_requests self) \<and> response (network_requests self ! k) = Some x"
  then show "k < length (network_requests (deliver evs self))"
    using deliver_keeps[of k self x evs] by simp
  from a show "response (network_requests (deliver evs self) ! k) = Some x"
    using deliver_keeps[of k self x evs] by simp
next
  assume "request_url r1 = response_url resp \<and> request_url r2 = response_url resp"
  then show "network_requests
          (deliver [RequestStarted 0 r1, RequestStarted 1 r2, ResponseReceived 2 resp]
             (init h :: ('l, 'h) manager)) =
        [\<lparr>timestamp = 0, url = request_url r1, method_of = request_method r1,
           headers = request_headers r1, resourceType = request_resource_type r1,
           request_id = id_of_request r1,
           response = Some \<lparr>timestamp = 2, status = response_status resp,
             statusText = response_status_text resp,
             response_headers = response_headers_of resp\<rparr>\<rparr>,
         \<lparr>timestamp = 1, url = request_url r2, method_of = request_method r2,
           headers = request_headers r2, resourceType = request_resource_type r2,
           request_id = id_of_request r2, response = None\<rparr>]"
    by (simp add: deliver_def init_def handle_request_def handle_response_def)
qed

theorem response_attaches_to_oldest_unmatched_witness:
  "network_requests (handle_response 6 (example_response ''/a'') example_network) =
     [example_answered, example_request 3 ''/b'',
      (example_request 4 ''/a'')\<lparr>response :=
         Some \<lparr>timestamp = 6, status = 200, statusText = ''OK'', response_headers = []\<rparr>\<rparr>,
      example_request 5 ''/a''] \<and>
   response (network_requests
      (deliver [ResponseReceived 6 (example_response ''/a''),
                ResponseReceived 7 (example_response ''/a'')] example_network) ! 0) =
     Some \<lparr>timestamp = 2, status = 404, statusText = ''Not Found'', response_headers = []\<rparr> \<and>
   network_requests
     (deliver [RequestStarted 0 (Request ''/a'' ''GET'' [] ''fetch'' 11),
               RequestStarted 1 (Request ''/a'' ''GET'' [] ''fetch'' 12),
               ResponseReceived 2 (example_response ''/a'')] (init True :: example_manager)) =
     [\<lparr>timestamp = 0, url = ''/a'', method_of = ''GET'', headers = [], resourceType = ''fetch'',
        request_id = 11,
        response = Some \<lparr>timestamp = 2, status = 200, statusText = ''OK'',
          response_headers = []\<rparr>\<rparr>,
      \<lparr>timestamp = 1, url = ''/a'', method_of = ''GET'', headers = [], resourceType = ''fetch'',
        request_id = 12, response = None\<rparr>]"
  using response_attaches_to_oldest_unmatched
    [of 2 example_network "example_response ''/a''" 6 0
      "\<lparr>timestamp = 2, status = 404, statusText = ''Not Found'', response_headers = []\<rparr>"
      "[ResponseReceived 6 (example_response ''/a''), ResponseReceived 7 (example_response ''/a'')]"
      "Request ''/a'' ''GET'' [] ''fetch'' 11" "Request ''/a'' ''GET'' [] ''fetch'' 12" True]
  by (simp add: example_network_def example_answered_def example_request_def
      example_response_def init_def numeral_2_eq_2 All_less_Suc)

text \<open>
  C9. When no exchange of the network log has the url of the response and no response
  yet, \<^verbatim>\<open>_handle_response\<close> leaves the manager, and so the network log, as it was. The
  handler returns a manager on every input: it has no branch that raises.
\<close>

theorem unmatched_response_is_dropped:
  "\<forall>r \<in> set (network_requests self). \<not> (url r = response_url resp \<and> response r = None) \<Longrightarrow>
   handle_response now resp self = self"
  by (simp add: handle_response_def attach_response_no_match)

theorem unmatched_response_is_dropped_witness:
  "handle_response 6 (example_response ''/c'') example_network = example_network \<and>
   handle_response 6 (example_response ''/a'')
     (example_network\<lparr>network_requests := [example_answered]\<rparr>) =
     example_network\<lparr>network_requests := [example_answered]\<rparr>"
  using unmatched_response_is_dropped [of example_network "example_response ''/c''" 6]
    unmatched_response_is_dropped [of "example_network\<lparr>network_requests := [example_answered]\<rparr>"
      "example_response ''/a''" 6]
  by (simp add: example_network_def example_answered_def example_request_def
      example_response_def)

section \<open>Properties of the Python primitives\<close>

lemma sort_key_sorted_reverse: "sort_key f (sorted_reverse f xs) = sort_key f xs"
proof -
  let ?ys = "sort_key f (sorted_reverse f xs)"
  have "sort_key f xs = ?ys"
  proof (rule properties_for_sort_key)
    show "mset ?ys = mset xs" by (simp add: sorted_reverse_def)
    show "sorted (map f ?ys)" by simp
    fix k
    have "filter (\<lambda>x. f x = f k) ?ys = filter (\<lambda>x. f x = f k) xs"
      by (simp add: sort_key_stable sorted_reverse_def flip: rev_filter)
    then show "filter (\<lambda>x. f k = f x) ?ys = filter (\<lambda>x. f k = f x) xs"
      by (simp add: eq_commute[of "f k"])
  qed
  then show ?thesis by simp
qed

lemma mset_sorted_reverse: "mset (sorted_reverse f xs) = mset xs"
  by (simp add: sorted_reverse_def)

lemma length_sorted_reverse: "length (sorted_reverse f xs) = length xs"
  by (simp add: sorted_reverse_def)

lemma sorted_reverse_Nil: "sorted_reverse f [] = []"
  by (simp add: sorted_reverse_def)

lemma sorted_rev_sorted_reverse: "sorted (map f (rev (sorted_reverse f xs)))"
  by (simp add: sorted_reverse_def)

lemma sorted_reverse_strict:
  assumes "sorted_wrt (<) (map f xs)"
  shows "sorted_reverse f xs = rev xs"
proof -
  have "inj_on f (set xs)" using assms
    by (metis distinct_map strict_sorted_iff)
  moreover have "sorted (map f xs)" using assms by (simp add: strict_sorted_iff)
  ultimately have "sort_key f (rev xs) = xs"
    by (intro sort_key_inj_key_eq) simp_all
  then show ?thesis by (simp add: sorted_reverse_def)
qed

lemma sorted_reverse_take_ge:
  assumes "x \<in> set (drop n (sorted_reverse f xs))" and "y \<in> set (take n (sorted_reverse f xs))"
  shows "f x \<le> f y"
proof -
  let ?d = "sorted_reverse f xs"
  have "sorted (map f (rev ?d))" by (rule sorted_rev_sorted_reverse)
  then have "sorted (map f (rev (drop n ?d)) @ map f (rev (take n ?d)))"
    by (metis append_take_drop_id map_append rev_append)
  then show ?thesis using assms by (auto simp: sorted_append)
qed

lemma slice_to_pos: "0 < n \<Longrightarrow> slice_to n xs = take (nat n) xs"
  by (simp add: slice_to_def)

lemma slice_to_zero: "slice_to 0 xs = []"
  by (simp add: slice_to_def)

lemma slice_to_all: "int (length xs) \<le> n \<Longrightarrow> slice_to n xs = xs"
  by (simp add: slice_to_def)

lemma mset_slice_to: "mset (slice_to n xs) \<subseteq># mset xs"
  by (metis slice_to_def append_take_drop_id mset_append mset_subset_eq_add_left)

lemma window_all:
  "int (length xs) \<le> n \<Longrightarrow> sort_key f (slice_to n (sorted_reverse f xs)) = sort_key f xs"
  by (simp add: slice_to_all length_sorted_reverse sort_key_sorted_reverse)

lemma window_mset: "mset (sort_key f (slice_to n (sorted_reverse f xs))) \<subseteq># mset xs"
  using mset_slice_to[of n "sorted_reverse f xs"] by (simp add: mset_sorted_reverse)

lemma window_strict:
  assumes "sorted_wrt (<) (map f xs)"
  shows "sort_key f (take k (sorted_reverse f xs)) = drop (length xs - k) xs"
proof -
  let ?ys = "drop (length xs - k) xs"
  have take: "take k (sorted_reverse f xs) = rev ?ys"
    using assms by (simp add: sorted_reverse_strict take_rev)
  have strict: "sorted_wrt (<) (map f ?ys)"
    using assms by (simp add: sorted_wrt_drop flip: drop_map)
  then have "inj_on f (set ?ys)" "sorted (map f ?ys)"
    by (metis distinct_map strict_sorted_iff)+
  then have "sort_key f (rev ?ys) = ?ys"
    by (intro sort_key_inj_key_eq) simp_all
  with take show ?thesis by simp
qed

section \<open>Properties of the queries\<close>

lemma get_network_requests_eq:
  "get_network_requests n self =
     (Inr (sort_key timestamp (slice_to n (sorted_reverse timestamp (network_requests self)))), self)"
  by (simp add: get_network_requests_def Let_def sorted_reverse_Nil slice_to_def)

lemma deduplicate_Nil: "deduplicate [] = []"
  by (simp add: deduplicate_def)

lemma get_console_logs_eq:
  "get_console_logs n self =
     (Inr (sort_key timestamp (slice_to n (sorted_reverse timestamp
        (deduplicate (console_logs self))))), self)"
  by (simp add: get_console_logs_def Let_def sorted_reverse_Nil slice_to_def deduplicate_Nil)

text \<open>
  What \<^verbatim>\<open>get_network_requests\<close> does on every log. For a positive \<open>last_n\<close> it returns
  \<open>last_n\<close> exchanges of the network log, or all of them when the log is shorter, whether
  they hold a response or not; the result is ordered by timestamp, oldest first, and no
  exchange that is left out has a later timestamp than a returned one. When the
  timestamps of the log increase strictly, the result is the last \<open>last_n\<close> entries of the
  log, in the order of the log.
\<close>

theorem network_requests_returns_most_recent:
  assumes "0 < n"
  shows "\<exists>res. get_network_requests n self = (Inr res, self) \<and>
     length res = min (nat n) (length (network_requests self)) \<and>
     mset res \<subseteq># mset (network_requests self) \<and>
     sorted (map timestamp res) \<and>
     (\<forall>x \<in># mset (network_requests self) - mset res. \<forall>y \<in> set res. timestamp x \<le> timestamp y) \<and>
     (sorted_wrt (<) (map timestamp (network_requests self)) \<longrightarrow>
        res = drop (length (network_requests self) - nat n) (network_requests self))"
proof -
  let ?xs = "network_requests self"
  let ?d = "sorted_reverse timestamp ?xs"
  let ?res = "sort_key timestamp (take (nat n) ?d)"
  have res: "get_network_requests n self = (Inr ?res, self)"
    using assms by (simp add: get_network_requests_eq slice_to_pos)
  have len: "length ?res = min (nat n) (length ?xs)"
    by (simp add: length_sorted_reverse min.commute)
  have sub: "mset ?res \<subseteq># mset ?xs"
    using window_mset[of timestamp n ?xs] assms by (simp add: slice_to_pos)
  have "mset ?xs = mset (take (nat n) ?d) + mset (drop (nat n) ?d)"
    by (metis append_take_drop_id mset_append mset_sorted_reverse)
  then have rest: "mset ?xs - mset ?res = mset (drop (nat n) ?d)"
    by simp
  have recent: "\<forall>x \<in># mset ?xs - mset ?res. \<forall>y \<in> set ?res. timestamp x \<le> timestamp y"
    unfolding rest using sorted_reverse_take_ge[of _ "nat n" timestamp ?xs] by simp
  have strict: "sorted_wrt (<) (map timestamp ?xs) \<longrightarrow> ?res = drop (length ?xs - nat n) ?xs"
    by (simp add: window_strict)
  from res len sub recent strict show ?thesis
    by (intro exI[of _ ?res]) simp
qed

theorem network_requests_returns_most_recent_witness:
  "get_network_requests 2 example_network =
     (Inr [example_request 4 ''/a'', example_request 5 ''/a''], example_network) \<and>
   get_network_requests 3 example_network =
     (Inr [example_request 3 ''/b'', example_request 4 ''/a'', example_request 5 ''/a''],
      example_network)"
  using network_requests_returns_most_recent [of 2 example_network]
    network_requests_returns_most_recent [of 3 example_network]
  by (simp add: example_network_def example_answered_def example_request_def)

text \<open>
  C7, at equal timestamps. The descending sort is stable, so among exchanges with one
  timestamp the ones appended first come first and survive the slice. On a log of three
  exchanges for \<^verbatim>\<open>/x\<close>, \<^verbatim>\<open>/y\<close>, \<^verbatim>\<open>/z\<close>, appended in this order with the same timestamp,
  \<^verbatim>\<open>get_network_requests(2)\<close> returns the exchanges for \<^verbatim>\<open>/x\<close> and \<^verbatim>\<open>/y\<close>: the exchange
  appended last is the one left out.
\<close>

theorem equal_timestamps_drop_newest_request:
  "get_network_requests 2 example_network_ties =
     (Inr [example_request 1 ''/x'', example_request 1 ''/y''], example_network_ties) \<and>
   drop (length (network_requests example_network_ties) - 2)
     (network_requests example_network_ties) =
     [example_request 1 ''/y'', example_request 1 ''/z'']"
  by (simp add: get_network_requests_def Let_def slice_to_def sorted_reverse_def
      example_network_ties_def example_request_def)

theorem equal_timestamps_drop_newest_request_witness:
  "map url (case fst (get_network_requests 2 example_network_ties) of
      Inl e \<Rightarrow> [] | Inr rs \<Rightarrow> rs) = [''/x'', ''/y'']"
  using equal_timestamps_drop_newest_request by (simp add: example_request_def)

lemma timestamp_new_group: "timestamp (new_group entry) = timestamp entry"
  by (simp add: new_group_def)

lemma timestamp_repeat_group: "timestamp (repeat_group entry g) = timestamp g"
  by (simp add: repeat_group_def Let_def)

lemma dedup_loop_sorted:
  "sorted (map timestamp earlier @ timestamp g # map timestamp logs) \<Longrightarrow>
   sorted (map timestamp (dedup_loop logs earlier (Some g)))"
proof (induction logs arbitrary: earlier g)
  case Nil
  then show ?case by simp
next
  case (Cons entry logs)
  show ?case
  proof (cases "type entry \<noteq> type g \<or> text_of entry \<noteq> text_of g")
    case True
    have "sorted (map timestamp (earlier @ [g]) @ timestamp (new_group entry) # map timestamp logs)"
      using Cons.prems by (simp add: timestamp_new_group)
    then have "sorted (map timestamp (dedup_loop logs (earlier @ [g]) (Some (new_group entry))))"
      by (rule Cons.IH)
    with True show ?thesis by simp
  next
    case False
    have "sorted (map timestamp earlier @ timestamp (repeat_group entry g) # map timestamp logs)"
      using Cons.prems by (auto simp: timestamp_repeat_group sorted_append)
    then have "sorted (map timestamp (dedup_loop logs earlier (Some (repeat_group entry g))))"
      by (rule Cons.IH)
    with False show ?thesis by simp
  qed
qed

lemma deduplicate_sorted: "sorted (map timestamp (deduplicate logs))"
proof (cases "sort_key timestamp logs")
  case Nil
  then show ?thesis by (simp add: deduplicate_def)
next
  case (Cons entry rest)
  have "sorted (map timestamp (sort_key timestamp logs))" by simp
  then have "sorted (map timestamp [] @ timestamp (new_group entry) # map timestamp rest)"
    by (simp add: Cons timestamp_new_group)
  then have "sorted (map timestamp (dedup_loop rest [] (Some (new_group entry))))"
    by (rule dedup_loop_sorted)
  then show ?thesis by (simp add: deduplicate_def Cons)
qed

text \<open>
  C8. When \<open>last_n\<close> exceeds the number of groups that the deduplication produces,
  \<^verbatim>\<open>get_console_logs\<close> returns all of these groups, in the order in which the
  deduplication produced them. When \<open>last_n\<close> exceeds the length of the network log,
  \<^verbatim>\<open>get_network_requests\<close> returns all its exchanges, ordered by timestamp with ties in
  the order of the log: the log itself when its timestamps do not decrease. Both return a
  result and no error.
\<close>

theorem large_last_n_returns_whole_buffer:
  "(int (length (deduplicate (console_logs self))) < n \<longrightarrow>
      get_console_logs n self = (Inr (deduplicate (console_logs self)), self)) \<and>
   (int (length (network_requests self)) < m \<longrightarrow>
      get_network_requests m self = (Inr (sort_key timestamp (network_requests self)), self) \<and>
      (sorted (map timestamp (network_requests self)) \<longrightarrow>
         get_network_requests m self = (Inr (network_requests self), self)))"
proof (intro conjI impI)
  assume "int (length (deduplicate (console_logs self))) < n"
  then have "sort_key timestamp (slice_to n (sorted_reverse timestamp (deduplicate (console_logs self))))
     = sort_key timestamp (deduplicate (console_logs self))"
    by (intro window_all) simp
  also have "\<dots> = deduplicate (console_logs self)"
    by (rule sort_key_id_if_sorted) (rule deduplicate_sorted)
  finally show "get_console_logs n self = (Inr (deduplicate (console_logs self)), self)"
    by (simp add: get_console_logs_eq)
next
  assume "int (length (network_requests self)) < m"
  then have all: "sort_key timestamp (slice_to m (sorted_reverse timestamp (network_requests self)))
     = sort_key timestamp (network_requests self)"
    by (intro window_all) simp
  then show "get_network_requests m self = (Inr (sort_key timestamp (network_requests self)), self)"
    by (simp add: get_network_requests_eq)
  assume "sorted (map timestamp (network_requests self))"
  then have "sort_key timestamp (network_requests self) = network_requests self"
    by (rule sort_key_id_if_sorted)
  with all show "get_network_requests m self = (Inr (network_requests self), self)"
    by (simp add: get_network_requests_eq)
qed

theorem large_last_n_returns_whole_buffer_witness:
  "get_console_logs 4 example_console =
     (Inr [\<lparr>timestamp = 1, type = ''info'', text_of = ''a (repeated 2 times)'',
             location = ''app.js:1'', count = 2, timestamps = [1, 2]\<rparr>,
           \<lparr>timestamp = 3, type = ''info'', text_of = ''b'', location = ''app.js:2'',
             count = 1, timestamps = [3]\<rparr>,
           \<lparr>timestamp = 4, type = ''info'', text_of = ''a'', location = ''app.js:1'',
             count = 1, timestamps = [4]\<rparr>], example_console) \<and>
   get_network_requests 5 example_network =
     (Inr (network_requests example_network), example_network)"
proof -
  have d: "deduplicate (console_logs example_console) =
     [\<lparr>timestamp = 1, type = ''info'', text_of = ''a (repeated 2 times)'',
             location = ''app.js:1'', count = 2, timestamps = [1, 2]\<rparr>,
           \<lparr>timestamp = 3, type = ''info'', text_of = ''b'', location = ''app.js:2'',
             count = 1, timestamps = [3]\<rparr>,
           \<lparr>timestamp = 4, type = ''info'', text_of = ''a'', location = ''app.js:1'',
             count = 1, timestamps = [4]\<rparr>]"
    by (simp add: example_console_def deduplicate_def info_entry_def new_group_def
        repeat_group_def str_int_def str_nat.simps digit_char_def)
  have n: "sorted (map timestamp (network_requests example_network))"
    by (simp add: example_network_def example_answered_def example_request_def)
  have l: "length (network_requests example_network) = 4"
    by (simp add: example_network_def)
  have "get_console_logs 4 example_console =
     (Inr (deduplicate (console_logs example_console)), example_console)"
    using large_last_n_returns_whole_buffer [of example_console 4 5] d by simp
  moreover have "get_network_requests 5 example_network =
     (Inr (network_requests example_network), example_network)"
    using large_last_n_returns_whole_buffer [of example_network 4 5] n l
    by (simp add: sort_key_id_if_sorted)
  ultimately show ?thesis using d by simp
qed

text \<open>
  C10. The queries are read-only: each returns the manager it was called on, with
  both logs as they were, for every manager and every \<open>last_n\<close>.
\<close>

theorem queries_leave_manager_unchanged:
  "snd (get_console_logs n self) = self \<and> snd (get_network_requests n self) = self \<and>
   console_logs (snd (get_console_logs n self)) = console_logs self \<and>
   network_requests (snd (get_console_logs n self)) = network_requests self \<and>
   console_logs (snd (get_network_requests n self)) = console_logs self \<and>
   network_requests (snd (get_network_requests n self)) = network_requests self"
  by (simp add: get_console_logs_def get_network_requests_def Let_def)

theorem queries_leave_manager_unchanged_witness:
  "snd (get_console_logs 1 example_console) = example_console \<and>
   snd (get_network_requests (- 2) example_network) = example_network"
  using queries_leave_manager_unchanged [of 1 example_console]
    queries_leave_manager_unchanged [of "- 2" example_network]
  by simp

text \<open>
  C2, as the code has it. The queries do not check \<open>last_n\<close> and have no failing
  branch. For every non-positive \<open>last_n\<close> each returns a list and the unchanged manager;
  the list is empty when \<open>last_n\<close> is 0, and otherwise it is ordered by timestamp and
  holds only groups of the deduplicated console log, or exchanges of the network log.
\<close>

theorem non_positive_last_n_returns_a_list:
  assumes "n \<le> 0"
  shows "(\<exists>res. get_console_logs n self = (Inr res, self) \<and> (n = 0 \<longrightarrow> res = []) \<and>
            mset res \<subseteq># mset (deduplicate (console_logs self)) \<and> sorted (map timestamp res)) \<and>
         (\<exists>res. get_network_requests n self = (Inr res, self) \<and> (n = 0 \<longrightarrow> res = []) \<and>
            mset res \<subseteq># mset (network_requests self) \<and> sorted (map timestamp res))"
proof (intro conjI)
  let ?c = "sort_key timestamp (slice_to n (sorted_reverse timestamp (deduplicate (console_logs self))))"
  have "get_console_logs n self = (Inr ?c, self)" by (rule get_console_logs_eq)
  moreover have "n = 0 \<longrightarrow> ?c = []" by (simp add: slice_to_zero)
  moreover have "mset ?c \<subseteq># mset (deduplicate (console_logs self))" by (rule window_mset)
  moreover have "sorted (map timestamp ?c)" by simp
  ultimately show "\<exists>res. get_console_logs n self = (Inr res, self) \<and> (n = 0 \<longrightarrow> res = []) \<and>
            mset res \<subseteq># mset (deduplicate (console_logs self)) \<and> sorted (map timestamp res)"
    by blast
next
  let ?r = "sort_key timestamp (slice_to n (sorted_reverse timestamp (network_requests self)))"
  have "get_network_requests n self = (Inr ?r, self)" by (rule get_network_requests_eq)
  moreover have "n = 0 \<longrightarrow> ?r = []" by (simp add: slice_to_zero)
  moreover have "mset ?r \<subseteq># mset (network_requests self)" by (rule window_mset)
  moreover have "sorted (map timestamp ?r)" by simp
  ultimately show "\<exists>res. get_network_requests n self = (Inr res, self) \<and> (n = 0 \<longrightarrow> res = []) \<and>
            mset res \<subseteq># mset (network_requests self) \<and> sorted (map timestamp res)"
    by blast
qed

theorem non_positive_last_n_returns_a_list_witness:
  "(0::int) \<le> 0 \<and> (- 1::int) \<le> 0 \<and>
   get_console_logs 0 example_console = (Inr [], example_console) \<and>
   get_network_requests 0 example_network = (Inr [], example_network) \<and>
   snd (get_console_logs (- 1) example_console) = example_console \<and>
   snd (get_network_requests (- 1) example_network) = example_network"
  using non_positive_last_n_returns_a_list [of 0 example_console]
    non_positive_last_n_returns_a_list [of 0 example_network]
    non_positive_last_n_returns_a_list [of "- 1" example_console]
    non_positive_last_n_returns_a_list [of "- 1" example_network]
  by auto

theorem non_positive_last_n_counterexample:
  "get_console_logs 0 example_console = (Inr [], example_console) \<and>
   get_console_logs (- 1) example_console =
     (Inr [\<lparr>timestamp = 3, type = ''info'', text_of = ''b'', location = ''app.js:2'',
             count = 1, timestamps = [3]\<rparr>,
           \<lparr>timestamp = 4, type = ''info'', text_of = ''a'', location = ''app.js:1'',
             count = 1, timestamps = [4]\<rparr>], example_console) \<and>
   get_network_requests 0 example_network = (Inr [], example_network) \<and>
   get_network_requests (- 3) example_network =
     (Inr [example_request 5 ''/a''], example_network)"
  by (simp add: get_console_logs_def get_network_requests_def Let_def slice_to_def
      sorted_reverse_def example_console_def example_network_def example_answered_def
      example_request_def deduplicate_def info_entry_def new_group_def
      repeat_group_def str_int_def str_nat.simps digit_char_def)

section \<open>Deduplication on concrete console logs\<close>

lemma str_int_2: "str_int 2 = ''2''"
  by (simp add: str_int_def str_nat.simps digit_char_def)

text \<open>
  The example with four entries, at distinct times of the last two. The console log
  holds four \<^verbatim>\<open>info\<close> entries with the texts a, a, b, a, observed in
  this order at times that do not decrease, the last one strictly after the third.
  \<^verbatim>\<open>get_console_logs(10)\<close> returns three groups, in this order: a with count 2 and the text
  \<^verbatim>\<open>a (repeated 2 times)\<close>, b with count 1, a with count 1. \<^verbatim>\<open>get_console_logs(1)\<close> returns
  the last group only.
\<close>

theorem console_example_groups:
  assumes "t1 \<le> t2" and "t2 \<le> t3" and "t3 < t4"
  shows "fst (get_console_logs 10 (self\<lparr>console_logs :=
            [info_entry t1 ''a'' l1, info_entry t2 ''a'' l2, info_entry t3 ''b'' l3,
             info_entry t4 ''a'' l4]\<rparr>)) =
          Inr [\<lparr>timestamp = t1, type = ''info'', text_of = ''a (repeated 2 times)'',
                 location = l1, count = 2, timestamps = [t1, t2]\<rparr>,
               \<lparr>timestamp = t3, type = ''info'', text_of = ''b'', location = l3,
                 count = 1, timestamps = [t3]\<rparr>,
               \<lparr>timestamp = t4, type = ''info'', text_of = ''a'', location = l4,
                 count = 1, timestamps = [t4]\<rparr>] \<and>
         fst (get_console_logs 1 (self\<lparr>console_logs :=
            [info_entry t1 ''a'' l1, info_entry t2 ''a'' l2, info_entry t3 ''b'' l3,
             info_entry t4 ''a'' l4]\<rparr>)) =
          Inr [\<lparr>timestamp = t4, type = ''info'', text_of = ''a'', location = l4,
                 count = 1, timestamps = [t4]\<rparr>]"
proof -
  let ?logs = "[info_entry t1 ''a'' l1, info_entry t2 ''a'' l2, info_entry t3 ''b'' l3,
             info_entry t4 ''a'' l4]"
  let ?g1 = "\<lparr>timestamp = t1, type = ''info'', text_of = ''a (repeated 2 times)'',
                 location = l1, count = 2, timestamps = [t1, t2]\<rparr>"
  let ?g2 = "\<lparr>timestamp = t3, type = ''info'', text_of = ''b'', location = l3,
                 count = 1, timestamps = [t3]\<rparr>"
  let ?g3 = "\<lparr>timestamp = t4, type = ''info'', text_of = ''a'', location = l4,
                 count = 1, timestamps = [t4]\<rparr>"
  have "sorted (map timestamp ?logs)"
    using assms by (simp add: info_entry_def)
  then have "sort_key timestamp ?logs = ?logs"
    by (rule sort_key_id_if_sorted)
  then have d: "deduplicate ?logs = [?g1, ?g2, ?g3]"
    by (simp add: deduplicate_def info_entry_def new_group_def repeat_group_def str_int_2)
  have le: "t1 \<le> t3" "t1 < t4" "t3 \<le> t4" using assms by simp_all
  have r: "sorted_reverse timestamp [?g1, ?g2, ?g3] =
      (if t3 \<le> t1 then [?g3, ?g1, ?g2] else [?g3, ?g2, ?g1])"
    using le assms(3) by (simp add: sorted_reverse_def)
  have all: "sort_key timestamp (sorted_reverse timestamp [?g1, ?g2, ?g3]) = [?g1, ?g2, ?g3]"
    using le by (simp add: sort_key_sorted_reverse)
  have "slice_to 10 (sorted_reverse timestamp [?g1, ?g2, ?g3]) =
      sorted_reverse timestamp [?g1, ?g2, ?g3]"
    by (rule slice_to_all) (simp add: length_sorted_reverse)
  with all d have ten: "fst (get_console_logs 10 (self\<lparr>console_logs := ?logs\<rparr>)) =
      Inr [?g1, ?g2, ?g3]"
    by (simp add: get_console_logs_eq)
  have "slice_to 1 (sorted_reverse timestamp [?g1, ?g2, ?g3]) = [?g3]"
    by (simp add: r slice_to_def)
  with d have one: "fst (get_console_logs 1 (self\<lparr>console_logs := ?logs\<rparr>)) = Inr [?g3]"
    by (simp add: get_console_logs_eq)
  from ten one show ?thesis by simp
qed

theorem console_example_groups_witness:
  "fst (get_console_logs 10 example_console) =
     Inr [\<lparr>timestamp = 1, type = ''info'', text_of = ''a (repeated 2 times)'',
            location = ''app.js:1'', count = 2, timestamps = [1, 2]\<rparr>,
          \<lparr>timestamp = 3, type = ''info'', text_of = ''b'', location = ''app.js:2'',
            count = 1, timestamps = [3]\<rparr>,
          \<lparr>timestamp = 4, type = ''info'', text_of = ''a'', location = ''app.js:1'',
            count = 1, timestamps = [4]\<rparr>] \<and>
   fst (get_console_logs 1 example_console) =
     Inr [\<lparr>timestamp = 4, type = ''info'', text_of = ''a'', location = ''app.js:1'',
            count = 1, timestamps = [4]\<rparr>]"
  using console_example_groups
    [of 1 2 3 4 "''app.js:1''" "''app.js:1''" "''app.js:2''" "''app.js:1''" "init True"]
  by (simp add: example_console_def)

text \<open>
  C4, at equal timestamps. When the third and the fourth entry carry the same timestamp,
  the groups b and a carry it as well; the stable descending sort leaves b before a, and
  \<^verbatim>\<open>get_console_logs(1)\<close> returns the group b, not the last group a.
  \<^verbatim>\<open>get_console_logs(10)\<close> still returns the three groups in order.
\<close>

theorem equal_timestamps_drop_last_group:
  "get_console_logs 1 example_console_ties =
     (Inr [\<lparr>timestamp = 3, type = ''info'', text_of = ''b'', location = ''app.js:2'',
             count = 1, timestamps = [3]\<rparr>], example_console_ties) \<and>
   get_console_logs 10 example_console_ties =
     (Inr [\<lparr>timestamp = 1, type = ''info'', text_of = ''a (repeated 2 times)'',
             location = ''app.js:1'', count = 2, timestamps = [1, 2]\<rparr>,
           \<lparr>timestamp = 3, type = ''info'', text_of = ''b'', location = ''app.js:2'',
             count = 1, timestamps = [3]\<rparr>,
           \<lparr>timestamp = 3, type = ''info'', text_of = ''a'', location = ''app.js:1'',
             count = 1, timestamps = [3]\<rparr>], example_console_ties)"
  by (simp add: get_console_logs_def Let_def slice_to_def sorted_reverse_def
      example_console_ties_def deduplicate_def info_entry_def new_group_def repeat_group_def
      str_int_2)

theorem equal_timestamps_drop_last_group_witness:
  "map text_of (case fst (get_console_logs 1 example_console_ties) of
      Inl e \<Rightarrow> [] | Inr gs \<Rightarrow> gs) = [''b'']"
  using equal_timestamps_drop_last_group by simp

text \<open>
  C1, on a run of three. After the second entry of a run the text of the current group
  is the rewritten one, so the third entry, whose text is the original one, differs from
  it and starts a new group: three consecutive entries \<^verbatim>\<open>(info, a)\<close> give two groups, with
  counts 2 and 1, not one group with count 3.
\<close>

theorem run_of_three_gives_two_groups:
  "get_console_logs 10 example_burst =
     (Inr [\<lparr>timestamp = 1, type = ''info'', text_of = ''a (repeated 2 times)'',
             location = ''app.js:1'', count = 2, timestamps = [1, 2]\<rparr>,
           \<lparr>timestamp = 3, type = ''info'', text_of = ''a'', location = ''app.js:1'',
             count = 1, timestamps = [3]\<rparr>], example_burst)"
  by (simp add: get_console_logs_def Let_def slice_to_def sorted_reverse_def
      example_burst_def deduplicate_def info_entry_def new_group_def repeat_group_def str_int_2)

theorem run_of_three_gives_two_groups_witness:
  "map count (case fst (get_console_logs 10 example_burst) of Inl e \<Rightarrow> [] | Inr gs \<Rightarrow> gs) = [2, 1]"
  using run_of_three_gives_two_groups by simp

section \<open>Properties of the lifecycle\<close>

lemma deliver_append: "deliver (xs @ ys) self = deliver ys (deliver xs self)"
  by (simp add: deliver_def)

lemma dispatch_console_logs:
  "console_logs s = console_logs s' \<Longrightarrow> console_logs (dispatch ev s) = console_logs (dispatch ev s')"
  by (cases ev) (simp_all add: handle_console_message_def handle_request_def handle_response_def)

lemma dispatch_network_requests:
  "network_requests s = network_requests s' \<Longrightarrow>
   network_requests (dispatch ev s) = network_requests (dispatch ev s')"
  by (cases ev) (simp_all add: handle_console_message_def handle_request_def handle_response_def)

lemma deliver_console_logs:
  "console_logs s = console_logs s' \<Longrightarrow> console_logs (deliver evs s) = console_logs (deliver evs s')"
  unfolding deliver_def
proof (induction evs arbitrary: s s')
  case Nil
  then show ?case by simp
next
  case (Cons ev evs)
  from Cons.prems have "console_logs (dispatch ev s) = console_logs (dispatch ev s')"
    by (rule dispatch_console_logs)
  then have "console_logs (fold dispatch evs (dispatch ev s)) =
      console_logs (fold dispatch evs (dispatch ev s'))"
    by (rule Cons.IH)
  then show ?case by simp
qed

lemma deliver_network_requests:
  "network_requests s = network_requests s' \<Longrightarrow>
   network_requests (deliver evs s) = network_requests (deliver evs s')"
  unfolding deliver_def
proof (induction evs arbitrary: s s')
  case Nil
  then show ?case by simp
next
  case (Cons ev evs)
  from Cons.prems have "network_requests (dispatch ev s) = network_requests (dispatch ev s')"
    by (rule dispatch_network_requests)
  then have "network_requests (fold dispatch evs (dispatch ev s)) =
      network_requests (fold dispatch evs (dispatch ev s'))"
    by (rule Cons.IH)
  then show ?case by simp
qed

lemma get_console_logs_cong:
  "console_logs s = console_logs s' \<Longrightarrow> fst (get_console_logs n s) = fst (get_console_logs n s')"
  by (simp add: get_console_logs_eq)

lemma dispatch_reset:
  "(dispatch ev s)\<lparr>console_logs := a, network_requests := b\<rparr> =
   s\<lparr>console_logs := a, network_requests := b\<rparr>"
  by (cases ev) (simp_all add: handle_console_message_def handle_request_def handle_response_def)

lemma deliver_reset:
  "(deliver evs s)\<lparr>console_logs := a, network_requests := b\<rparr> =
   s\<lparr>console_logs := a, network_requests := b\<rparr>"
  unfolding deliver_def
proof (induction evs arbitrary: s)
  case Nil
  show ?case by simp
next
  case (Cons ev evs)
  have "(fold dispatch (ev # evs) s)\<lparr>console_logs := a, network_requests := b\<rparr> =
      (dispatch ev s)\<lparr>console_logs := a, network_requests := b\<rparr>"
    using Cons.IH[of "dispatch ev s"] by simp
  then show ?case by (simp only: dispatch_reset)
qed

lemma and_then_cases [consumes 1, case_names Raise Return]:
  assumes "and_then p q self = (r, self', calls)"
  obtains (Raise) e where "p self = (Inl e, self', calls)" and "r = Inl e"
  | (Return) x s1 cs cs' where "p self = (Inr x, s1, cs)" and "q x s1 = (r, self', cs')"
      and "calls = cs @ cs'"
  using assms unfolding and_then_def
  by (auto split: prod.splits sum.splits)

lemma and_then_assign: "and_then (assign f) q self = q () (f self)"
  by (simp add: and_then_def assign_def split: prod.splits)

lemma await_cases [consumes 1, case_names Raise Return]:
  assumes "await env c evs self = (r, self', calls)"
  obtains (Raise) "env c = Raises" and "r = Inl (Raised c)" and "self' = deliver evs self"
      and "calls = [c]"
  | (Return) h where "env c = Returns h" and "r = Inr h" and "self' = deliver evs self"
      and "calls = [c]"
  using assms unfolding await_def
  by (auto split: outcome.splits)

lemma deliver_Nil: "deliver [] self = self"
  by (simp add: deliver_def)

lemma dispatch_fields:
  "playwright (dispatch ev s) = playwright s \<and> browser (dispatch ev s) = browser s \<and>
   page (dispatch ev s) = page s \<and> is_initialized (dispatch ev s) = is_initialized s \<and>
   headless (dispatch ev s) = headless s"
  by (cases ev) (simp_all add: handle_console_message_def handle_request_def handle_response_def)

lemma deliver_fields:
  "playwright (deliver evs s) = playwright s \<and> browser (deliver evs s) = browser s \<and>
   page (deliver evs s) = page s \<and> is_initialized (deliver evs s) = is_initialized s \<and>
   headless (deliver evs s) = headless s"
  unfolding deliver_def
  by (induction evs arbitrary: s) (simp_all add: dispatch_fields)

lemma release_step:
  assumes "(case h of
       Some x \<Rightarrow> and_then (await env (c x) evs) (\<lambda>_. assign f) self
     | None \<Rightarrow> returning () self) = (Inr u, s1, cs)"
  shows "s1 = (case h of Some x \<Rightarrow> f (deliver evs self) | None \<Rightarrow> self) \<and>
         cs = (case h of Some x \<Rightarrow> [c x] | None \<Rightarrow> [])"
proof (cases h)
  case None
  with assms show ?thesis by (simp add: returning_def)
next
  case (Some x)
  with assms have "and_then (await env (c x) evs) (\<lambda>_. assign f) self = (Inr u, s1, cs)"
    by simp
  then show ?thesis
  proof (cases rule: and_then_cases)
    case (Raise e)
    then show ?thesis by simp
  next
    case (Return y s2 cs2 cs3)
    from Return(1) have "s2 = deliver evs self" "cs2 = [c x]"
      by (auto elim: await_cases)
    with Return(2,3) Some show ?thesis by (simp add: assign_def)
  qed
qed

lemma release_step_returns:
  assumes "\<forall>c. env c \<noteq> Raises"
  shows "\<exists>s1 cs. (case h of
       Some x \<Rightarrow> and_then (await env (c x) evs) (\<lambda>_. assign f) self
     | None \<Rightarrow> returning () self) = (Inr (), s1, cs)"
proof (cases h)
  case None
  then show ?thesis by (simp add: returning_def)
next
  case (Some x)
  from assms obtain hd where "env (c x) = Returns hd"
    by (cases "env (c x)") auto
  with Some show ?thesis
    by (simp add: and_then_def await_def assign_def)
qed

lemma close_outcome:
  assumes "close env evs self = (Inr (), self', calls)"
  shows "self' = self\<lparr>playwright := None, browser := None, page := None, console_logs := [],
           network_requests := [], is_initialized := False\<rparr> \<and>
         calls = (case page self of Some p \<Rightarrow> [PageClose p] | None \<Rightarrow> []) @
                 (case browser self of Some b \<Rightarrow> [BrowserClose b] | None \<Rightarrow> []) @
                 (case playwright self of Some pw \<Rightarrow> [Stop pw] | None \<Rightarrow> [])"
  using assms unfolding close_def
proof (cases rule: and_then_cases)
  case (Raise e)
  then show ?thesis by simp
next
  case step1: (Return x1 s1 cs1 rest1)
  from step1(1) have s1: "s1 = (case page self of Some p \<Rightarrow> (deliver evs self)\<lparr>page := None\<rparr> | None \<Rightarrow> self)"
    and cs1: "cs1 = (case page self of Some p \<Rightarrow> [PageClose p] | None \<Rightarrow> [])"
    using release_step[OF step1(1)] by simp_all
  from step1(2) show ?thesis
  proof (cases rule: and_then_cases)
    case (Raise e)
    then show ?thesis by simp
  next
    case step2: (Return x2 s2 cs2 rest2)
    from step2(1) have s2: "s2 = (case browser s1 of Some b \<Rightarrow> s1\<lparr>browser := None\<rparr> | None \<Rightarrow> s1)"
      and cs2: "cs2 = (case browser s1 of Some b \<Rightarrow> [BrowserClose b] | None \<Rightarrow> [])"
      using release_step[OF step2(1)] by (simp_all add: deliver_Nil cong: option.case_cong)
    from step2(2) show ?thesis
    proof (cases rule: and_then_cases)
      case (Raise e)
      then show ?thesis by (simp add: assign_def)
    next
      case step3: (Return x3 s3 cs3 rest3)
      from step3(1) have s3: "s3 = (case playwright s2 of Some pw \<Rightarrow> s2\<lparr>playwright := None\<rparr> | None \<Rightarrow> s2)"
        and cs3: "cs3 = (case playwright s2 of Some pw \<Rightarrow> [Stop pw] | None \<Rightarrow> [])"
        using release_step[OF step3(1)] by (simp_all add: deliver_Nil cong: option.case_cong)
      from step3(2) have fin: "self' = s3\<lparr>is_initialized := False, console_logs := [],
          network_requests := []\<rparr>" and rest3: "rest3 = []"
        by (simp_all add: assign_def)
      have b1: "browser s1 = browser self" and p1: "playwright s1 = playwright self"
        using s1 by (simp_all add: deliver_fields split: option.splits)
      have p2: "playwright s2 = playwright self"
        using s2 p1 by (simp split: option.splits)
      have calls: "calls = (case page self of Some p \<Rightarrow> [PageClose p] | None \<Rightarrow> []) @
                 (case browser self of Some b \<Rightarrow> [BrowserClose b] | None \<Rightarrow> []) @
                 (case playwright self of Some pw \<Rightarrow> [Stop pw] | None \<Rightarrow> [])"
        using step1(3) step2(3) step3(3) cs1 cs2 cs3 rest3 b1 p2 by simp
      have state: "self' = self\<lparr>playwright := None, browser := None, page := None,
           console_logs := [], network_requests := [], is_initialized := False\<rparr>"
        by (rule manager.equality)
          (simp_all add: fin s3 s2 s1 deliver_fields split: option.splits)
      from state calls show ?thesis by simp
    qed
  qed
qed

lemma close_without_handles:
  assumes "page s = None" and "browser s = None" and "playwright s = None"
  shows "close env evs s =
     (Inr (), s\<lparr>is_initialized := False, console_logs := [], network_requests := []\<rparr>, [])"
  using assms by (simp add: close_def and_then_def returning_def assign_def)

lemma and_then_returns:
  assumes "p self = (Inr x, s1, cs)" and "q x s1 = (Inr y, s2, cs')"
  shows "and_then p q self = (Inr y, s2, cs @ cs')"
  using assms by (simp add: and_then_def)

lemma close_returns:
  assumes "\<forall>c. env c \<noteq> Raises"
  shows "\<exists>self' calls. close env evs self = (Inr (), self', calls)"
proof -
  from release_step_returns[OF assms]
  obtain s1 cs1 where 1: "(case page self of
       Some p \<Rightarrow> and_then (await env (PageClose p) evs) (\<lambda>_. assign (\<lambda>self. self\<lparr>page := None\<rparr>)) self
     | None \<Rightarrow> returning () self) = (Inr (), s1, cs1)"
    by blast
  from release_step_returns[OF assms]
  obtain s2 cs2 where 2: "(case browser s1 of
       Some b \<Rightarrow> and_then (await env (BrowserClose b) []) (\<lambda>_. assign (\<lambda>self. self\<lparr>browser := None\<rparr>)) s1
     | None \<Rightarrow> returning () s1) = (Inr (), s2, cs2)"
    by blast
  from release_step_returns[OF assms]
  obtain s3 cs3 where 3: "(case playwright s2 of
       Some pw \<Rightarrow> and_then (await env (Stop pw) []) (\<lambda>_. assign (\<lambda>self. self\<lparr>playwright := None\<rparr>)) s2
     | None \<Rightarrow> returning () s2) = (Inr (), s3, cs3)"
    by blast
  have t3: "and_then (\<lambda>self. case playwright self of
         Some pw \<Rightarrow> and_then (await env (Stop pw) []) (\<lambda>_.
                      assign (\<lambda>self. self\<lparr>playwright := None\<rparr>)) self
       | None \<Rightarrow> returning () self) (\<lambda>_.
     assign (\<lambda>self. self\<lparr>is_initialized := False, console_logs := [],
       network_requests := []\<rparr>)) s2 =
     (Inr (), s3\<lparr>is_initialized := False, console_logs := [], network_requests := []\<rparr>,
      cs3 @ [])"
    by (rule and_then_returns, rule 3) (simp add: assign_def)
  have t2: "and_then (\<lambda>self. case browser self of
         Some b \<Rightarrow> and_then (await env (BrowserClose b) []) (\<lambda>_.
                     assign (\<lambda>self. self\<lparr>browser := None\<rparr>)) self
       | None \<Rightarrow> returning () self) (\<lambda>_.
     and_then (\<lambda>self. case playwright self of
         Some pw \<Rightarrow> and_then (await env (Stop pw) []) (\<lambda>_.
                      assign (\<lambda>self. self\<lparr>playwright := None\<rparr>)) self
       | None \<Rightarrow> returning () self) (\<lambda>_.
     assign (\<lambda>self. self\<lparr>is_initialized := False, console_logs := [],
       network_requests := []\<rparr>))) s1 =
     (Inr (), s3\<lparr>is_initialized := False, console_logs := [], network_requests := []\<rparr>,
      cs2 @ cs3 @ [])"
    by (rule and_then_returns, rule 2, rule t3)
  have "close env evs self =
     (Inr (), s3\<lparr>is_initialized := False, console_logs := [], network_requests := []\<rparr>,
      cs1 @ cs2 @ cs3 @ [])"
    unfolding close_def by (rule and_then_returns, rule 1, rule t2)
  then show ?thesis by blast
qed

lemma initialize_error:
  assumes "initialize env self = (Inl e, s, cs)"
  shows "e = Raised Start \<or> (\<exists>pw opts. e = Raised (Launch pw opts))"
  using assms
  unfolding initialize_def and_then_def await_def assign_def returning_def Let_def
  by (auto split: if_splits outcome.splits)

lemma open_url_after_reset:
  assumes "and_then (\<lambda>self. case browser self of
         Some b \<Rightarrow> await env (NewPage b) [] self
       | None \<Rightarrow> raise AttributeError self) (\<lambda>p.
     and_then (assign (\<lambda>self. self\<lparr>page := Some p\<rparr>)) (\<lambda>_.
     and_then (call_sync (PageOn p ''console'')) (\<lambda>_.
     and_then (call_sync (PageOn p ''request'')) (\<lambda>_.
     and_then (call_sync (PageOn p ''response'')) (\<lambda>_.
     and_then (await env (Goto p u ''networkidle'') evs_nav) (\<lambda>_.
     returning msg)))))) s = (r, self', calls)"
  shows "((r = Inl AttributeError \<or> (\<exists>b. r = Inl (Raised (NewPage b)))) \<and> self' = s) \<or>
         ((r = Inr msg \<or> (\<exists>p. r = Inl (Raised (Goto p u ''networkidle'')))) \<and>
          (\<exists>p. self' = deliver evs_nav (s\<lparr>page := Some p\<rparr>)))"
  using assms
proof (cases rule: and_then_cases)
  case (Raise e)
  then show ?thesis
    by (auto simp: raise_def deliver_Nil split: option.splits elim: await_cases)
next
  case (Return p s1 cs cs')
  from Return(1) have s1: "s1 = s"
    by (auto simp: raise_def deliver_Nil split: option.splits elim: await_cases)
  from Return(2) have "and_then (await env (Goto p u ''networkidle'') evs_nav)
      (\<lambda>_. returning msg) (s1\<lparr>page := Some p\<rparr>) =
      (r, self', drop 3 cs')"
    by (auto simp: and_then_def assign_def call_sync_def split: prod.splits sum.splits)
  then have "(r = Inr msg \<or> r = Inl (Raised (Goto p u ''networkidle''))) \<and>
      self' = deliver evs_nav (s1\<lparr>page := Some p\<rparr>)"
    by (auto simp: and_then_def await_def returning_def split: outcome.splits)
  with s1 show ?thesis by auto
qed

lemma open_url_outcomes:
  assumes "open_url env u evs_close evs_nav self = (r, self', calls)"
  shows "(\<exists>c. r = Inl (Raised c) \<and>
            (c = Start \<or> (\<exists>pw opts. c = Launch pw opts) \<or> (\<exists>p. c = PageClose p))) \<or>
         ((r = Inl AttributeError \<or> (\<exists>b. r = Inl (Raised (NewPage b)))) \<and>
            console_logs self' = [] \<and> network_requests self' = []) \<or>
         ((r = Inr (''Opened '' @ u @
               '' successfully. The browser window will remain open for you to interact with.'') \<or>
           (\<exists>p. r = Inl (Raised (Goto p u ''networkidle'')))) \<and>
          (\<exists>s. console_logs s = [] \<and> network_requests s = [] \<and> self' = deliver evs_nav s))"
  using assms unfolding open_url_def
proof (cases rule: and_then_cases)
  case (Raise e)
  then have "initialize env self = (Inl e, self', calls)"
    by (simp add: returning_def split: if_splits)
  from initialize_error[OF this] Raise(2) show ?thesis by auto
next
  case step1: (Return x1 s1 cs1 rest1)
  from step1(2) show ?thesis
  proof (cases rule: and_then_cases)
    case (Raise e)
    then have "\<exists>p. e = Raised (PageClose p)"
      by (auto simp: returning_def split: option.splits
          elim!: and_then_cases await_cases)
    with Raise(2) show ?thesis by auto
  next
    case step2: (Return x2 s2 cs2 rest2)
    from step2(2) have "and_then (\<lambda>self. case browser self of
         Some b \<Rightarrow> await env (NewPage b) [] self
       | None \<Rightarrow> raise AttributeError self) (\<lambda>p.
     and_then (assign (\<lambda>self. self\<lparr>page := Some p\<rparr>)) (\<lambda>_.
     and_then (call_sync (PageOn p ''console'')) (\<lambda>_.
     and_then (call_sync (PageOn p ''request'')) (\<lambda>_.
     and_then (call_sync (PageOn p ''response'')) (\<lambda>_.
     and_then (await env (Goto p u ''networkidle'') evs_nav) (\<lambda>_.
     returning (''Opened '' @ u @
       '' successfully. The browser window will remain open for you to interact with.'')))))))
       (s2\<lparr>console_logs := [], network_requests := []\<rparr>) = (r, self', rest2)"
      by (simp add: and_then_assign)
    from open_url_after_reset[OF this] consider
      (early) "r = Inl AttributeError \<or> (\<exists>b. r = Inl (Raised (NewPage b)))"
        and "self' = s2\<lparr>console_logs := [], network_requests := []\<rparr>"
    | (nav) p where "r = Inr (''Opened '' @ u @
           '' successfully. The browser window will remain open for you to interact with.'') \<or>
         (\<exists>p. r = Inl (Raised (Goto p u ''networkidle'')))"
        and "self' = deliver evs_nav
           (s2\<lparr>console_logs := [], network_requests := []\<rparr>\<lparr>page := Some p\<rparr>)"
      by blast
    then show ?thesis
    proof cases
      case early
      then show ?thesis by simp
    next
      case nav
      let ?s = "s2\<lparr>console_logs := [], network_requests := []\<rparr>\<lparr>page := Some p\<rparr>"
      have "console_logs ?s = [] \<and> network_requests ?s = [] \<and> self' = deliver evs_nav ?s"
        using nav(2) by simp
      then have "\<exists>s. console_logs s = [] \<and> network_requests s = [] \<and> self' = deliver evs_nav s"
        by (rule exI)
      with nav(1) show ?thesis by blast
    qed
  qed
qed

text \<open>
  C6. When \<^verbatim>\<open>close\<close> returns, it has closed the page, the browser and the Playwright
  instance, in this order, skipping each handle that was \<^verbatim>\<open>None\<close>; all three handles are
  \<^verbatim>\<open>None\<close>, \<^verbatim>\<open>is_initialized\<close> is false and both logs are empty. A second \<^verbatim>\<open>close\<close> right
  after it makes no call into the browser library, so it cannot raise whatever the
  library would do, and it leaves the manager as it is. The first \<^verbatim>\<open>close\<close> returns
  whenever none of its calls into the library raises.
\<close>

theorem close_is_idempotent:
  "(close env evs self = (Inr (), self', calls) \<longrightarrow>
      self' = self\<lparr>playwright := None, browser := None, page := None, console_logs := [],
        network_requests := [], is_initialized := False\<rparr> \<and>
      calls = (case page self of Some p \<Rightarrow> [PageClose p] | None \<Rightarrow> []) @
              (case browser self of Some b \<Rightarrow> [BrowserClose b] | None \<Rightarrow> []) @
              (case playwright self of Some pw \<Rightarrow> [Stop pw] | None \<Rightarrow> []) \<and>
      close env' evs' self' = (Inr (), self', [])) \<and>
   ((\<forall>c. env c \<noteq> Raises) \<longrightarrow> (\<exists>s cs. close env evs self = (Inr (), s, cs)))"
proof (intro conjI impI)
  assume a: "close env evs self = (Inr (), self', calls)"
  from close_outcome[OF a]
  show s: "self' = self\<lparr>playwright := None, browser := None, page := None, console_logs := [],
        network_requests := [], is_initialized := False\<rparr>"
    and "calls = (case page self of Some p \<Rightarrow> [PageClose p] | None \<Rightarrow> []) @
              (case browser self of Some b \<Rightarrow> [BrowserClose b] | None \<Rightarrow> []) @
              (case playwright self of Some pw \<Rightarrow> [Stop pw] | None \<Rightarrow> [])"
    by simp_all
  have "close env' evs' self' =
     (Inr (), self'\<lparr>is_initialized := False, console_logs := [], network_requests := []\<rparr>, [])"
    by (rule close_without_handles) (simp_all add: s)
  also have "self'\<lparr>is_initialized := False, console_logs := [], network_requests := []\<rparr> = self'"
    by (simp add: s)
  finally show "close env' evs' self' = (Inr (), self', [])" .
next
  assume "\<forall>c. env c \<noteq> Raises"
  then show "\<exists>s cs. close env evs self = (Inr (), s, cs)"
    by (rule close_returns)
qed

theorem close_is_idempotent_witness:
  "close example_env example_events example_open =
     (Inr (), init True, [PageClose 3, BrowserClose 2, Stop 1]) \<and>
   close (\<lambda>c. Raises) example_events (init True :: example_manager) = (Inr (), init True, [])"
proof -
  have ev: "\<forall>c. example_env c \<noteq> Raises"
    by (simp add: example_env_def split: call.splits)
  have r: "example_open\<lparr>playwright := None, browser := None, page := None, console_logs := [],
        network_requests := [], is_initialized := False\<rparr> = init True"
    by (simp add: example_open_def init_def)
  from ev close_is_idempotent[of example_env example_events example_open _ _ "\<lambda>c. Raises" example_events]
  obtain s cs where c: "close example_env example_events example_open = (Inr (), s, cs)"
    by blast
  with close_is_idempotent[of example_env example_events example_open s cs "\<lambda>c. Raises" example_events] r
  have "s = init True" and "cs = [PageClose 3, BrowserClose 2, Stop 1]"
    and "close (\<lambda>c. Raises) example_events s = (Inr (), s, [])"
    by (auto simp: example_open_def)
  with c show ?thesis by simp
qed

text \<open>
  C5. When \<^verbatim>\<open>open_url\<close> returns, or fails in \<^verbatim>\<open>goto\<close>, both logs hold exactly what the
  events of the new navigation put into empty logs: nothing of the logs before the call
  and nothing that the previous page emitted while it was being closed. A later
  \<^verbatim>\<open>get_console_logs\<close> therefore returns what it would return on a fresh manager that has
  received the events of the navigation and the later ones. When \<^verbatim>\<open>open_url\<close> fails
  between the reset and the navigation, both logs are empty.
\<close>

theorem open_url_resets_logs:
  fixes self :: "('l, 'h) manager" and h :: bool
  shows
  "(open_url env u evs_close evs_nav self = (r, self', calls) \<and>
    (r = Inr msg \<or> r = Inl (Raised (Goto p u w))) \<longrightarrow>
      console_logs self' = console_logs (deliver evs_nav (init h :: ('l, 'h) manager)) \<and>
      network_requests self' = network_requests (deliver evs_nav (init h :: ('l, 'h) manager)) \<and>
      fst (get_console_logs n (deliver later self')) =
        fst (get_console_logs n (deliver (evs_nav @ later) (init h :: ('l, 'h) manager)))) \<and>
   (open_url env u evs_close evs_nav self = (r, self', calls) \<and>
    (r = Inl AttributeError \<or> r = Inl (Raised (NewPage b))) \<longrightarrow>
      console_logs self' = [] \<and> network_requests self' = [])"
proof (intro conjI impI)
  assume a: "open_url env u evs_close evs_nav self = (r, self', calls) \<and>
    (r = Inr msg \<or> r = Inl (Raised (Goto p u w)))"
  with open_url_outcomes[of env u evs_close evs_nav self r self' calls]
  obtain s where s: "console_logs s = []" "network_requests s = []" "self' = deliver evs_nav s"
    by auto
  let ?i = "init h :: ('l, 'h) manager"
  have "console_logs s = console_logs ?i"
    using s by (simp add: init_def)
  then show c: "console_logs self' = console_logs (deliver evs_nav ?i)"
    unfolding s(3) by (rule deliver_console_logs)
  have "network_requests s = network_requests ?i"
    using s by (simp add: init_def)
  then show "network_requests self' = network_requests (deliver evs_nav ?i)"
    unfolding s(3) by (rule deliver_network_requests)
  from c have "console_logs (deliver later self') =
      console_logs (deliver later (deliver evs_nav ?i))"
    by (rule deliver_console_logs)
  then show "fst (get_console_logs n (deliver later self')) =
        fst (get_console_logs n (deliver (evs_nav @ later) ?i))"
    unfolding deliver_append by (rule get_console_logs_cong)
next
  assume a: "open_url env u evs_close evs_nav self = (r, self', calls) \<and>
    (r = Inl AttributeError \<or> r = Inl (Raised (NewPage b)))"
  with open_url_outcomes[of env u evs_close evs_nav self r self' calls]
  show "console_logs self' = []" and "network_requests self' = []"
    by auto
qed

theorem open_url_resets_logs_witness:
  "open_url example_env ''http://b.test'' [Console 5 (ConsoleMessage ''log'' ''bye'' ''old.js:9'')]
     example_events example_open =
     (Inr ''Opened http://b.test successfully. The browser window will remain open for you to interact with.'',
      example_open\<lparr>console_logs := [\<lparr>timestamp = 6, type = ''log'', text_of = ''new'',
          location = ''new.js:1''\<rparr>],
        network_requests := [\<lparr>timestamp = 7, url = ''/new'', method_of = ''GET'', headers = [],
          resourceType = ''document'', request_id = 21, response = None\<rparr>]\<rparr>,
      [PageClose 3, NewPage 2, PageOn 3 ''console'', PageOn 3 ''request'', PageOn 3 ''response'',
       Goto 3 ''http://b.test'' ''networkidle'']) \<and>
   fst (get_console_logs 5 (fst (snd (open_url example_env ''http://b.test''
     [Console 5 (ConsoleMessage ''log'' ''bye'' ''old.js:9'')] example_events example_open)))) =
     Inr [\<lparr>timestamp = 6, type = ''log'', text_of = ''new'', location = ''new.js:1'', count = 1,
       timestamps = [6]\<rparr>]"
proof -
  have o: "open_url example_env ''http://b.test'' [Console 5 (ConsoleMessage ''log'' ''bye'' ''old.js:9'')]
     example_events example_open =
     (Inr ''Opened http://b.test successfully. The browser window will remain open for you to interact with.'',
      example_open\<lparr>console_logs := [\<lparr>timestamp = 6, type = ''log'', text_of = ''new'',
          location = ''new.js:1''\<rparr>],
        network_requests := [\<lparr>timestamp = 7, url = ''/new'', method_of = ''GET'', headers = [],
          resourceType = ''document'', request_id = 21, response = None\<rparr>]\<rparr>,
      [PageClose 3, NewPage 2, PageOn 3 ''console'', PageOn 3 ''request'', PageOn 3 ''response'',
       Goto 3 ''http://b.test'' ''networkidle''])"
    by (simp add: open_url_def and_then_def returning_def assign_def await_def call_sync_def
        example_env_def example_open_def example_events_def deliver_def
        handle_console_message_def handle_request_def)
  have i: "console_logs (deliver example_events (init True :: example_manager)) =
      [\<lparr>timestamp = 6, type = ''log'', text_of = ''new'', location = ''new.js:1''\<rparr>]"
    by (simp add: example_events_def deliver_def init_def handle_console_message_def
        handle_request_def)
  from open_url_resets_logs[where env = example_env and u = "''http://b.test''"
      and evs_close = "[Console 5 (ConsoleMessage ''log'' ''bye'' ''old.js:9'')]"
      and evs_nav = example_events and self = example_open and later = "[]" and n = 5
      and h = True
      and msg = "''Opened http://b.test successfully. The browser window will remain open for you to interact with.''"] o i
  show ?thesis
    by (simp add: deliver_Nil get_console_logs_eq deduplicate_def new_group_def
        sorted_reverse_def slice_to_def)
qed

end
